theory Spec2Isabelle
  imports Main "HOL-Library.Char_ord" "HOL-Library.List_Lexorder"
begin

section \<open>git-gc: the program of cmd/git-gc/main.go\<close>

text \<open>
  The program enumerates the git repositories below a root directory
  (\<open>findDirectories\<close>), builds a Bubble Tea model over that list (\<open>newModel\<close>) and
  drives \<open>git gc\<close> over the list through the model's \<open>Init\<close> and \<open>Update\<close> methods.
  Go's \<open>int\<close> is modelled by \<open>int\<close>: every counter below moves by one per message and is
  compared with a slice length, so the 64-bit bound is never approached.
\<close>

subsection \<open>Messages and commands\<close>

text \<open>
  \<open>exitErr\<close> of the \<open>tea.ExecProcess\<close> callback: \<open>None\<close> is Go's \<open>nil\<close>; the
  process either ended with a non-zero status or could not be started.
\<close>

datatype exec_error = ExitError int | StartError

text \<open>
  The messages \<open>Update\<close> switches on. \<open>QuitCmdAsMsg\<close> is the function value
  \<open>tea.Quit\<close> itself travelling as a message (what the callback of \<open>runGitGC\<close> returns
  on an error); its dynamic type is a function type, not \<open>tea.QuitMsg\<close>.
\<close>

datatype msg =
    WindowSizeMsg int int
  | KeyMsg string
  | DirGitGCCompleted string
  | SpinnerTickMsg
  | ProgressFrameMsg
  | QuitMsg
  | QuitCmdAsMsg

text \<open>
  Commands as data. \<open>ExecProcess dir\<close> is \<open>runGitGC(dir)\<close>: \<open>git -C dir gc\<close> with both
  output streams discarded. \<open>SetPercent i n\<close> is the command of
  \<open>progress.SetPercent(float64(i) / float64(n))\<close> (the operands are kept, the floating
  point quotient is not computed). \<open>Printf pkg\<close> prints the checkmark line of \<open>pkg\<close>.
  \<open>SpinnerCmd\<close> and \<open>ProgressCmd\<close> are whatever the two library components return from
  their own \<open>Update\<close>. \<open>NilCmd\<close> is Go's \<open>nil\<close> command.
\<close>

datatype cmd =
    NilCmd
  | SpinnerTick
  | Quit
  | ExecProcess string
  | SetPercent int int
  | Printf string
  | SpinnerCmd
  | ProgressCmd
  | Batch "cmd list"
  | Sequence "cmd list"

datatype panic = MakeSliceLenOutOfRange | IndexOutOfRange

subsection \<open>The model\<close>

text \<open>
  The struct \<open>model\<close> (its field \<open>done\<close> is \<open>doneFlag\<close> here, \<open>done\<close> being a keyword
  of the proof language). The spinner and the styles carry no scheduling state and are left
  out; of the progress bar the model keeps the operands of the last \<open>SetPercent\<close>
  (\<open>None\<close>: never called since \<open>progress.New\<close>).
\<close>

record model =
  directories :: "string list"
  width :: int
  height :: int
  progress :: "(int \<times> int) option"
  doneFlag :: bool
  concurrency :: int
  inFlight :: int
  nextIndex :: int
  index :: int

definition runGitGC :: "string \<Rightarrow> cmd" where
  "runGitGC dir = ExecProcess dir"

text \<open>The callback handed to \<open>tea.ExecProcess\<close> by \<open>runGitGC(dir)\<close>.\<close>

definition runGitGC_callback :: "string \<Rightarrow> exec_error option \<Rightarrow> msg" where
  "runGitGC_callback dir exitErr =
     (case exitErr of Some _ \<Rightarrow> QuitCmdAsMsg | None \<Rightarrow> DirGitGCCompleted dir)"

subsection \<open>Init\<close>

text \<open>
  The loop \<open>for i := range toSpawn\<close> of \<open>Init\<close>, on the method's own copy of the
  model: the first argument counts the iterations left, the list collects
  \<open>initialCmds\<close>. Indexing \<open>m.directories\<close> out of range panics.
\<close>

fun Init_loop :: "nat \<Rightarrow> model \<Rightarrow> cmd list \<Rightarrow> panic + (model \<times> cmd list)" where
  "Init_loop 0 m cmds = Inr (m, cmds)"
| "Init_loop (Suc k) m cmds =
     (if nextIndex m < 0 \<or> int (length (directories m)) \<le> nextIndex m
      then Inl IndexOutOfRange
      else Init_loop k
             (m\<lparr>nextIndex := nextIndex m + 1, inFlight := inFlight m + 1\<rparr>)
             (cmds @ [runGitGC (directories m ! nat (nextIndex m))]))"

text \<open>
  The body of \<open>Init\<close>, returning the method's local copy of the model next to the
  command. \<open>make([]tea.Cmd, toSpawn)\<close> panics on a negative length.
\<close>

definition Init_body :: "model \<Rightarrow> panic + (model \<times> cmd)" where
  "Init_body m =
     (if length (directories m) = 0 then Inr (m, Sequence [SpinnerTick, Quit])
      else
        let toSpawn = min (concurrency m) (int (length (directories m)))
        in if toSpawn < 0 then Inl MakeSliceLenOutOfRange
           else (case Init_loop (nat toSpawn) m [] of
                   Inl p \<Rightarrow> Inl p
                 | Inr (m', initialCmds) \<Rightarrow>
                     Inr (m', Batch [SpinnerTick, Batch initialCmds])))"

text \<open>
  \<open>func (m model) Init() tea.Cmd\<close>: the receiver is a value and the only result is the
  command, so the copy that the loop incremented is dropped on return.
\<close>

definition Init :: "model \<Rightarrow> panic + cmd" where
  "Init m = (case Init_body m of Inl p \<Rightarrow> Inl p | Inr (m', c) \<Rightarrow> Inr c)"

subsection \<open>Update\<close>

text \<open>
  The tail of the \<open>dirGitGCCompleted\<close> case: the test \<open>m.index >= len(m.directories)\<close>
  and the two returns. \<open>nextCmd\<close> is part of the second batch only.
\<close>

definition completed_return :: "model \<Rightarrow> string \<Rightarrow> cmd \<Rightarrow> model \<times> cmd" where
  "completed_return m pkg nextCmd =
     (let progressCmd = SetPercent (index m) (int (length (directories m)));
          checkMarkCmd = Printf pkg
      in if int (length (directories m)) \<le> index m
         then (m\<lparr>doneFlag := True\<rparr>, Batch [progressCmd, checkMarkCmd, Quit])
         else (m, Batch [progressCmd, checkMarkCmd, nextCmd]))"

definition Update :: "model \<Rightarrow> msg \<Rightarrow> panic + (model \<times> cmd)" where
  "Update m message =
     (case message of
        WindowSizeMsg w h \<Rightarrow> Inr (m\<lparr>width := w, height := h\<rparr>, NilCmd)
      | KeyMsg k \<Rightarrow>
          (if k = ''ctrl+c'' \<or> k = ''esc'' \<or> k = ''q'' then Inr (m, Quit)
           else Inr (m, NilCmd))
      | DirGitGCCompleted pkg \<Rightarrow>
          (let m1 = m\<lparr>index := index m + 1, inFlight := inFlight m - 1\<rparr>;
               m2 = m1\<lparr>progress := Some (index m1, int (length (directories m1)))\<rparr>
           in if nextIndex m2 < int (length (directories m2))
              then (if nextIndex m2 < 0 then Inl IndexOutOfRange
                    else Inr (completed_return
                           (m2\<lparr>nextIndex := nextIndex m2 + 1, inFlight := inFlight m2 + 1\<rparr>)
                           pkg
                           (runGitGC (directories m2 ! nat (nextIndex m2)))))
              else Inr (completed_return m2 pkg NilCmd))
      | SpinnerTickMsg \<Rightarrow> Inr (m, SpinnerCmd)
      | ProgressFrameMsg \<Rightarrow> Inr (m, ProgressCmd)
      | QuitMsg \<Rightarrow> Inr (m, Quit)
      | QuitCmdAsMsg \<Rightarrow> Inr (m, NilCmd))"

subsection \<open>View\<close>

text \<open>
  A \<open>fmt.Sprintf\<close> call, kept as its format string and integer arguments.
\<close>

datatype formatted = Sprintf string "int list"

text \<open>
  What \<open>View\<close> renders: the summary of the \<open>done\<close> branch, or the running line made
  of the info text, the progress bar (drawn by the library from the last
  \<open>SetPercent\<close>) and the package count. Spinner glyph, padding and styles are
  rendering only.
\<close>

datatype view = DoneView formatted | RunningView formatted "(int \<times> int) option" formatted

definition View :: "model \<Rightarrow> view" where
  "View m =
     (let total = int (length (directories m))
      in if doneFlag m
         then DoneView (Sprintf ''Done! Ran garbage collection on %d repos.\<newline>'' [total])
         else RunningView
                (Sprintf ''Cleaning repos... %d/%d complete'' [index m, total])
                (progress m)
                (Sprintf '' %d/%d'' [index m, total]))"

subsection \<open>The file system seen by \<open>findDirectories\<close>\<close>

text \<open>
  What \<open>os.Lstat\<close> and the directory listing find at a path: a regular file, an entry
  whose \<open>lstat\<close> fails, or a directory. The flag of a directory tells whether listing
  it succeeds (\<open>False\<close>: permission denied); its entries are in the order in which
  \<open>filepath.Walk\<close> processes them (\<open>readDirNames\<close> sorts the names). Symbolic links are
  not part of this model.
\<close>

datatype fsnode = File | Unstatable | Dir bool "(string \<times> fsnode) list"

datatype error =
    HomeDirError
  | AbsError
  | StatError string
  | NotADirectory string
  | ReadDirError string
  | LstatError string

text \<open>
  The operating system as the program queries it: \<open>os.UserHomeDir()\<close>,
  \<open>filepath.Abs(os.ExpandEnv(p))\<close> (\<open>None\<close> is an error), the tree found at an
  absolute path (\<open>None\<close>: nothing there), and \<open>runtime.NumCPU()\<close>.
\<close>

record os_env =
  userHomeDir :: "string option"
  absPath :: "string \<Rightarrow> string option"
  fsAt :: "string \<Rightarrow> fsnode option"
  numCPU :: int

fun IsDir :: "fsnode \<Rightarrow> bool" where
  "IsDir (Dir r es) = True"
| "IsDir File = False"
| "IsDir Unstatable = False"

definition HasPrefix :: "string \<Rightarrow> string \<Rightarrow> bool" where
  "HasPrefix s p = (take (length p) s = p)"

text \<open>
  \<open>filepath.Join(path, name)\<close> for a cleaned absolute \<open>path\<close> and a single name.
\<close>

definition Join :: "string \<Rightarrow> string \<Rightarrow> string" where
  "Join path name = (if path = ''/'' then ''/'' @ name else path @ ''/'' @ name)"

text \<open>
  \<open>FileInfo.Name()\<close> of the root: the last element of the cleaned absolute path
  (\<open>''/''\<close> for the file system root).
\<close>

definition base_name :: "string \<Rightarrow> string" where
  "base_name path =
     (if path = ''/'' then ''/'' else rev (takeWhile (\<lambda>c. c \<noteq> CHR ''/'') (rev path)))"

text \<open>
  \<open>os.Stat\<close> of the entry \<open>name\<close> of a directory with entries \<open>es\<close>: \<open>True\<close> when
  \<open>err == nil\<close>. A file and a directory both stat fine.
\<close>

definition stat_entry :: "(string \<times> fsnode) list \<Rightarrow> string \<Rightarrow> bool" where
  "stat_entry es name =
     (case map_of es name of
        None \<Rightarrow> False
      | Some File \<Rightarrow> True
      | Some Unstatable \<Rightarrow> False
      | Some (Dir r xs) \<Rightarrow> True)"

text \<open>
  The hash set \<open>dirs\<close>, as the list of its members without repetition.
  \<open>Values()\<close> returns the members in no particular order; the caller sorts them.
\<close>

definition hashset_Add :: "string list \<Rightarrow> string \<Rightarrow> string list" where
  "hashset_Add dirs x = (if x \<in> set dirs then dirs else x # dirs)"

text \<open>
  The function literal passed to \<open>filepath.Walk\<close>, with the set it closes over as
  an argument and a result. It never returns \<open>filepath.SkipDir\<close>.
\<close>

definition walkFn ::
  "string list \<Rightarrow> string \<Rightarrow> string \<Rightarrow> fsnode \<Rightarrow> error option \<Rightarrow> error + string list" where
  "walkFn dirs path name info err =
     (case err of
        Some e \<Rightarrow> Inl e
      | None \<Rightarrow>
          (case info of
             Dir r es \<Rightarrow>
               (if \<not> HasPrefix name ''.'' \<and> stat_entry es ''.git''
                then Inr (hashset_Add dirs path) else Inr dirs)
           | File \<Rightarrow> Inr dirs
           | Unstatable \<Rightarrow> Inr dirs))"

text \<open>
  \<open>filepath.Walk\<close> with this function: a node whose \<open>lstat\<close> fails and a directory
  that cannot be listed are reported to the function, whose error ends the walk; a
  listed directory is reported and then its entries are walked in order.
\<close>

fun walk :: "string \<Rightarrow> string \<Rightarrow> fsnode \<Rightarrow> string list \<Rightarrow> error + string list"
  and walk_names :: "string \<Rightarrow> (string \<times> fsnode) list \<Rightarrow> string list \<Rightarrow> error + string list"
where
  "walk path name File dirs = walkFn dirs path name File None"
| "walk path name Unstatable dirs = walkFn dirs path name Unstatable (Some (LstatError path))"
| "walk path name (Dir r es) dirs =
     (if \<not> r then walkFn dirs path name (Dir r es) (Some (ReadDirError path))
      else (case walkFn dirs path name (Dir r es) None of
              Inl e \<Rightarrow> Inl e
            | Inr dirs' \<Rightarrow> walk_names path es dirs'))"
| "walk_names path [] dirs = Inr dirs"
| "walk_names path ((name, node) # es) dirs =
     (case walk (Join path name) name node dirs of
        Inl e \<Rightarrow> Inl e
      | Inr dirs' \<Rightarrow> walk_names path es dirs')"

definition findDirectories :: "os_env \<Rightarrow> string \<Rightarrow> error + string list" where
  "findDirectories env rootDir =
     (case (if rootDir = [] then userHomeDir env else Some rootDir) of
        None \<Rightarrow> Inl HomeDirError
      | Some rootDir' \<Rightarrow>
          (case absPath env rootDir' of
             None \<Rightarrow> Inl AbsError
           | Some root \<Rightarrow>
               (case fsAt env root of
                  None \<Rightarrow> Inl (StatError root)
                | Some Unstatable \<Rightarrow> Inl (StatError root)
                | Some File \<Rightarrow> Inl (NotADirectory root)
                | Some (Dir r es) \<Rightarrow>
                    (case walk root (base_name root) (Dir r es) [] of
                       Inl e \<Rightarrow> Inl e
                     | Inr dirs \<Rightarrow> Inr (sort dirs)))))"

subsection \<open>Construction and \<open>main\<close>\<close>

definition newModel :: "os_env \<Rightarrow> string \<Rightarrow> int \<Rightarrow> error + model" where
  "newModel env rootDir c =
     (case findDirectories env rootDir of
        Inl e \<Rightarrow> Inl e
      | Inr dirs \<Rightarrow>
          Inr \<lparr>directories = dirs, width = 0, height = 0, progress = None,
               doneFlag = False, concurrency = c, inFlight = 0, nextIndex = 0, index = 0\<rparr>)"

text \<open>
  \<open>main\<close> registers the two flags and never calls \<open>flag.Parse\<close>, so \<open>rootDir\<close> and
  \<open>parallel\<close> keep their defaults. It leaves with status 1 when \<open>newModel\<close> fails and
  otherwise hands the model to \<open>tea.NewProgram(m).Run()\<close>.
\<close>

datatype main_result = Exit nat | RunProgram model

definition main :: "os_env \<Rightarrow> main_result" where
  "main env =
     (case newModel env [] (numCPU env) of
        Inl e \<Rightarrow> Exit 1
      | Inr m \<Rightarrow> RunProgram m)"

subsection \<open>The running program\<close>

text \<open>The directories a command starts \<open>git gc\<close> on, in the order of the batch.\<close>

fun execs :: "cmd \<Rightarrow> string list" where
  "execs (ExecProcess dir) = [dir]"
| "execs (Batch cs) = concat (map execs cs)"
| "execs (Sequence cs) = concat (map execs cs)"
| "execs NilCmd = []"
| "execs SpinnerTick = []"
| "execs Quit = []"
| "execs (SetPercent i n) = []"
| "execs (Printf pkg) = []"
| "execs SpinnerCmd = []"
| "execs ProgressCmd = []"

text \<open>
  The program under the Bubble Tea runtime: the model the runtime holds, the
  \<open>git gc\<close> processes started and not yet reported back, and every directory a process
  was started on so far, in order.
\<close>

record sys =
  mdl :: model
  running :: "string list"
  started :: "string list"

text \<open>
  \<open>Run\<close> calls \<open>Init\<close> on the model it was given and keeps that model; the command
  returned is executed.
\<close>

definition start :: "model \<Rightarrow> panic + sys" where
  "start m =
     (case Init m of
        Inl p \<Rightarrow> Inl p
      | Inr c \<Rightarrow> Inr \<lparr>mdl = m, running = execs c, started = execs c\<rparr>)"

text \<open>
  What can happen next: the process at a position of \<open>running\<close> ends with \<open>exitErr\<close>
  and its callback's message reaches \<open>Update\<close>, or a message of the runtime itself
  arrives. Completion messages have no other origin than a callback.
\<close>

datatype event = ProcessExit nat "exec_error option" | Incoming msg

datatype step_result = Disabled | Panicked panic | Next sys

fun from_runtime :: "msg \<Rightarrow> bool" where
  "from_runtime (DirGitGCCompleted pkg) = False"
| "from_runtime QuitCmdAsMsg = False"
| "from_runtime (WindowSizeMsg w h) = True"
| "from_runtime (KeyMsg k) = True"
| "from_runtime SpinnerTickMsg = True"
| "from_runtime ProgressFrameMsg = True"
| "from_runtime QuitMsg = True"

definition deliver :: "sys \<Rightarrow> string list \<Rightarrow> msg \<Rightarrow> step_result" where
  "deliver s running' message =
     (case Update (mdl s) message of
        Inl p \<Rightarrow> Panicked p
      | Inr (m', c) \<Rightarrow>
          Next \<lparr>mdl = m', running = running' @ execs c, started = started s @ execs c\<rparr>)"

definition step :: "sys \<Rightarrow> event \<Rightarrow> step_result" where
  "step s ev =
     (case ev of
        ProcessExit i exitErr \<Rightarrow>
          (if i < length (running s)
           then deliver s (take i (running s) @ drop (Suc i) (running s))
                  (runGitGC_callback (running s ! i) exitErr)
           else Disabled)
      | Incoming message \<Rightarrow>
          (if from_runtime message then deliver s (running s) message else Disabled))"

fun run :: "sys \<Rightarrow> event list \<Rightarrow> step_result" where
  "run s [] = Next s"
| "run s (ev # evs) =
     (case step s ev of
        Next s' \<Rightarrow> run s' evs
      | Disabled \<Rightarrow> Disabled
      | Panicked p \<Rightarrow> Panicked p)"

subsection \<open>Notions used by the properties\<close>

text \<open>
  The relation between the three counters and the \<open>done\<close> flag that every message
  preserves.
\<close>

definition sched_inv :: "model \<Rightarrow> bool" where
  "sched_inv m \<longleftrightarrow>
     nextIndex m = min (index m) (int (length (directories m))) \<and>
     inFlight m = nextIndex m - index m \<and>
     0 \<le> index m \<and>
     (doneFlag m \<longleftrightarrow> int (length (directories m)) \<le> index m \<and> 1 \<le> index m)"

text \<open>
  Every node of a tree with its path and name, whatever the names on the way to it:
  the root first, the entries of a directory in their order.
\<close>

fun nodes :: "string \<Rightarrow> string \<Rightarrow> fsnode \<Rightarrow> (string \<times> string \<times> fsnode) list"
  and nodes_list :: "string \<Rightarrow> (string \<times> fsnode) list \<Rightarrow> (string \<times> string \<times> fsnode) list"
where
  "nodes path name File = [(path, name, File)]"
| "nodes path name Unstatable = [(path, name, Unstatable)]"
| "nodes path name (Dir r es) = (path, name, Dir r es) # nodes_list path es"
| "nodes_list path [] = []"
| "nodes_list path ((name, node) # es) = nodes (Join path name) name node @ nodes_list path es"

text \<open>A tree in which every \<open>lstat\<close> and every directory listing succeeds.\<close>

fun traversable :: "fsnode \<Rightarrow> bool"
  and traversable_list :: "(string \<times> fsnode) list \<Rightarrow> bool"
where
  "traversable File = True"
| "traversable Unstatable = False"
| "traversable (Dir r es) = (r \<and> traversable_list es)"
| "traversable_list [] = True"
| "traversable_list ((name, node) # es) = (traversable node \<and> traversable_list es)"

text \<open>
  The test the walk function applies to a node before adding its path: a directory,
  a name that does not begin with a dot, and a \<open>.git\<close> entry that \<open>os.Stat\<close> accepts.
\<close>

definition listed :: "string \<times> string \<times> fsnode \<Rightarrow> bool" where
  "listed v = (case v of (path, name, node) \<Rightarrow>
     (case node of Dir r es \<Rightarrow> \<not> HasPrefix name ''.'' \<and> stat_entry es ''.git''
      | File \<Rightarrow> False | Unstatable \<Rightarrow> False))"

subsection \<open>Example inputs\<close>

text \<open>A directory holding nothing but a \<open>.git\<close> directory.\<close>

definition repo :: fsnode where
  "repo = Dir True [(''.git'', Dir True [])]"

text \<open>An environment whose only tree is \<open>t\<close>, at \<open>/r\<close>, which is also the home directory.\<close>

definition env_of :: "fsnode \<Rightarrow> os_env" where
  "env_of t = \<lparr>userHomeDir = Some ''/r'', absPath = (\<lambda>p. Some p),
     fsAt = (\<lambda>p. if p = ''/r'' then Some t else None), numCPU = 2\<rparr>"

text \<open>Three repositories \<open>a\<close>, \<open>b\<close>, \<open>c\<close>.\<close>

definition abc_env :: os_env where
  "abc_env = env_of (Dir True [(''a'', repo), (''b'', repo), (''c'', repo)])"

text \<open>Two repositories \<open>a\<close>, \<open>b\<close>.\<close>

definition ab_env :: os_env where
  "ab_env = env_of (Dir True [(''a'', repo), (''b'', repo)])"

text \<open>A repository below a hidden directory.\<close>

definition hidden_env :: os_env where
  "hidden_env = env_of (Dir True [(''.h'', Dir True [(''repo'', repo)])])"

text \<open>A directory whose \<open>.git\<close> is a regular file, as in a linked worktree.\<close>

definition worktree_env :: os_env where
  "worktree_env = env_of (Dir True [(''wt'', Dir True [(''.git'', File)])])"

text \<open>A repository next to a directory that cannot be listed.\<close>

definition locked_env :: os_env where
  "locked_env = env_of (Dir True [(''a'', repo), (''locked'', Dir False [])])"

text \<open>A root without any repository.\<close>

definition empty_env :: os_env where
  "empty_env = env_of (Dir True [(''notes.txt'', File)])"

text \<open>The model \<open>newModel\<close> builds over the directory list \<open>dirs\<close> with limit \<open>c\<close>.\<close>

definition fresh_model :: "string list \<Rightarrow> int \<Rightarrow> model" where
  "fresh_model dirs c =
     \<lparr>directories = dirs, width = 0, height = 0, progress = None,
      doneFlag = False, concurrency = c, inFlight = 0, nextIndex = 0, index = 0\<rparr>"

lemmas example_defs =
  findDirectories_def newModel_def main_def env_of_def abc_env_def ab_env_def hidden_env_def
  worktree_env_def locked_env_def empty_env_def repo_def base_name_def walkFn_def
  HasPrefix_def stat_entry_def hashset_Add_def Join_def fresh_model_def

lemmas run_defs =
  start_def Init_def Init_body_def step_def deliver_def Update_def completed_return_def
  runGitGC_def runGitGC_callback_def Let_def

section \<open>The scheduler: \<open>Init\<close>, \<open>Update\<close> and the running program\<close>

lemma Update_runtime:
  assumes "from_runtime message"
  shows "\<exists>m' c. Update m message = Inr (m', c) \<and> execs c = [] \<and>
           directories m' = directories m \<and> concurrency m' = concurrency m \<and>
           inFlight m' = inFlight m \<and> nextIndex m' = nextIndex m \<and> index m' = index m \<and>
           doneFlag m' = doneFlag m \<and> progress m' = progress m"
  using assms by (cases message) (auto simp: Update_def)

lemma Update_quit_value:
  "Update m QuitCmdAsMsg = Inr (m, NilCmd)"
  by (simp add: Update_def)

lemma Update_completed_ok:
  assumes "0 \<le> nextIndex m"
  shows "\<exists>m' c. Update m (DirGitGCCompleted pkg) = Inr (m', c) \<and>
           directories m' = directories m \<and> concurrency m' = concurrency m \<and>
           index m' = index m + 1 \<and>
           nextIndex m' = (if nextIndex m < int (length (directories m)) then nextIndex m + 1 else nextIndex m) \<and>
           inFlight m' = (if nextIndex m < int (length (directories m)) then inFlight m else inFlight m - 1) \<and>
           doneFlag m' = (doneFlag m \<or> int (length (directories m)) \<le> index m + 1) \<and>
           execs c = (if nextIndex m < int (length (directories m)) \<and> index m + 1 < int (length (directories m))
                      then [directories m ! nat (nextIndex m)] else [])"
  using assms by (auto simp: Update_def completed_return_def Let_def runGitGC_def)

lemma Update_inv:
  assumes "sched_inv m" and "Update m message = Inr (m', c)"
  shows "sched_inv m' \<and> directories m' = directories m \<and> concurrency m' = concurrency m"
proof (cases "from_runtime message")
  case True
  from Update_runtime[OF True, of m] assms show ?thesis
    by (auto simp: sched_inv_def)
next
  case False
  then consider pkg where "message = DirGitGCCompleted pkg" | "message = QuitCmdAsMsg"
    by (cases message) auto
  then show ?thesis
  proof cases
    case 1
    from assms(1) have "0 \<le> nextIndex m" by (simp add: sched_inv_def)
    from Update_completed_ok[OF this, of pkg] assms 1 show ?thesis
      by (auto simp: sched_inv_def split: if_splits)
  next
    case 2
    with assms show ?thesis by (simp add: Update_quit_value)
  qed
qed

lemma Update_total:
  assumes "0 \<le> nextIndex m"
  shows "\<exists>m' c. Update m message = Inr (m', c)"
proof (cases "from_runtime message")
  case True
  from Update_runtime[OF True, of m] show ?thesis by blast
next
  case False
  then consider pkg where "message = DirGitGCCompleted pkg" | "message = QuitCmdAsMsg"
    by (cases message) auto
  then show ?thesis
  proof cases
    case 1
    from Update_completed_ok[OF assms, of pkg] 1 show ?thesis by blast
  next
    case 2
    then show ?thesis by (simp add: Update_quit_value)
  qed
qed

lemma Update_execs_le:
  assumes "Update m message = Inr (m', c)"
  shows "length (execs c) \<le> 1"
  using assms
  by (cases message) (auto simp: Update_def completed_return_def Let_def runGitGC_def split: if_splits)

lemma Update_nextIndex_mono:
  assumes "Update m message = Inr (m', c)"
  shows "nextIndex m \<le> nextIndex m'"
  using assms
  by (cases message) (auto simp: Update_def completed_return_def Let_def split: if_splits)

lemma Init_loop_run:
  assumes "0 \<le> nextIndex m" and "nextIndex m + int k \<le> int (length (directories m))"
  shows "Init_loop k m cmds =
           Inr (m\<lparr>nextIndex := nextIndex m + int k, inFlight := inFlight m + int k\<rparr>,
                cmds @ map ExecProcess (take k (drop (nat (nextIndex m)) (directories m))))"
  using assms
proof (induction k arbitrary: m cmds)
  case 0
  then show ?case by simp
next
  case (Suc k)
  let ?m = "m\<lparr>nextIndex := nextIndex m + 1, inFlight := inFlight m + 1\<rparr>"
  from Suc.prems have lt: "nat (nextIndex m) < length (directories m)" by auto
  have d: "drop (nat (nextIndex m)) (directories m) =
             directories m ! nat (nextIndex m) # drop (nat (nextIndex m + 1)) (directories m)"
    using lt Suc.prems(1) by (simp add: Cons_nth_drop_Suc nat_add_distrib)
  have "Init_loop k ?m (cmds @ [runGitGC (directories m ! nat (nextIndex m))]) =
          Inr (?m\<lparr>nextIndex := nextIndex ?m + int k, inFlight := inFlight ?m + int k\<rparr>,
               (cmds @ [runGitGC (directories m ! nat (nextIndex m))]) @
                 map ExecProcess (take k (drop (nat (nextIndex ?m)) (directories ?m))))"
    using Suc.prems by (intro Suc.IH) auto
  then show ?case
    using Suc.prems lt by (simp add: d runGitGC_def add.assoc)
qed

lemma execs_ExecProcess_list: "concat (map (execs \<circ> ExecProcess) xs) = xs"
  by (induction xs) auto

lemma Init_fresh:
  assumes "nextIndex m = 0" and "0 \<le> concurrency m" and "directories m \<noteq> []"
  shows "Init m = Inr (Batch [SpinnerTick,
           Batch (map ExecProcess
             (take (nat (min (concurrency m) (int (length (directories m))))) (directories m)))])"
proof -
  let ?k = "nat (min (concurrency m) (int (length (directories m))))"
  have "Init_loop ?k m [] =
          Inr (m\<lparr>nextIndex := nextIndex m + int ?k, inFlight := inFlight m + int ?k\<rparr>,
               [] @ map ExecProcess (take ?k (drop (nat (nextIndex m)) (directories m))))"
    using assms by (intro Init_loop_run) auto
  then show ?thesis
    using assms by (simp add: Init_def Init_body_def Let_def)
qed

lemma Init_empty:
  assumes "directories m = []"
  shows "Init m = Inr (Sequence [SpinnerTick, Quit])"
  using assms by (simp add: Init_def Init_body_def)

lemma Init_negative:
  assumes "concurrency m < 0" and "directories m \<noteq> []"
  shows "Init m = Inl MakeSliceLenOutOfRange"
  using assms by (simp add: Init_def Init_body_def Let_def)

lemma start_fresh:
  assumes "nextIndex m = 0" and "0 \<le> concurrency m"
  shows "start m = Inr \<lparr>mdl = m,
           running = take (nat (min (concurrency m) (int (length (directories m))))) (directories m),
           started = take (nat (min (concurrency m) (int (length (directories m))))) (directories m)\<rparr>"
proof (cases "directories m = []")
  case True
  then show ?thesis by (simp add: start_def Init_empty)
next
  case False
  then show ?thesis
    using assms by (simp add: start_def Init_fresh execs_ExecProcess_list)
qed

lemma step_inv:
  assumes "sched_inv (mdl s)" and "step s ev = Next s'"
  shows "sched_inv (mdl s') \<and> directories (mdl s') = directories (mdl s) \<and>
         concurrency (mdl s') = concurrency (mdl s) \<and>
         length (running s') \<le> length (running s) \<and>
         nextIndex (mdl s) \<le> nextIndex (mdl s')"
proof (cases ev)
  case (ProcessExit i exitErr)
  with assms(2) have i: "i < length (running s)"
    by (auto simp: step_def split: if_splits)
  let ?msg = "runGitGC_callback (running s ! i) exitErr"
  from assms(2) ProcessExit i obtain m' c where
    u: "Update (mdl s) ?msg = Inr (m', c)" and
    s': "s' = \<lparr>mdl = m', running = (take i (running s) @ drop (Suc i) (running s)) @ execs c,
               started = started s @ execs c\<rparr>"
    by (auto simp: step_def deliver_def split: sum.splits)
  from i have "length (take i (running s) @ drop (Suc i) (running s)) + 1 = length (running s)"
    by auto
  with Update_execs_le[OF u] have "length (running s') \<le> length (running s)"
    by (simp add: s')
  with Update_inv[OF assms(1) u] Update_nextIndex_mono[OF u] show ?thesis
    by (simp add: s')
next
  case (Incoming message)
  with assms(2) have rt: "from_runtime message"
    by (auto simp: step_def split: if_splits)
  from assms(2) Incoming rt obtain m' c where
    u: "Update (mdl s) message = Inr (m', c)" and
    s': "s' = \<lparr>mdl = m', running = running s @ execs c, started = started s @ execs c\<rparr>"
    by (auto simp: step_def deliver_def split: sum.splits)
  from Update_runtime[OF rt, of "mdl s"] u have "execs c = []" by auto
  with Update_inv[OF assms(1) u] Update_nextIndex_mono[OF u] show ?thesis
    by (simp add: s')
qed

lemma step_no_panic:
  assumes "sched_inv (mdl s)"
  shows "step s ev \<noteq> Panicked p"
proof -
  from assms have "0 \<le> nextIndex (mdl s)" by (simp add: sched_inv_def)
  from Update_total[OF this] show ?thesis
    by (auto simp: step_def deliver_def split: event.splits sum.splits) (metis Inl_Inr_False)+
qed

lemma run_inv:
  assumes "sched_inv (mdl s)" and "run s evs = Next s'"
  shows "sched_inv (mdl s') \<and> directories (mdl s') = directories (mdl s) \<and>
         concurrency (mdl s') = concurrency (mdl s) \<and>
         length (running s') \<le> length (running s) \<and>
         nextIndex (mdl s) \<le> nextIndex (mdl s')"
  using assms
proof (induction evs arbitrary: s)
  case Nil
  then show ?case by simp
next
  case (Cons ev evs)
  from Cons.prems(2) obtain s1 where s1: "step s ev = Next s1" and r: "run s1 evs = Next s'"
    by (auto split: step_result.splits)
  from step_inv[OF Cons.prems(1) s1] Cons.IH[OF _ r] show ?case by auto
qed

lemma run_no_panic:
  assumes "sched_inv (mdl s)"
  shows "run s evs \<noteq> Panicked p"
  using assms
proof (induction evs arbitrary: s)
  case Nil
  then show ?case by simp
next
  case (Cons ev evs)
  show ?case
  proof (cases "step s ev")
    case Disabled
    then show ?thesis by simp
  next
    case (Panicked q)
    with step_no_panic[OF Cons.prems] show ?thesis by simp
  next
    case (Next s1)
    from step_inv[OF Cons.prems Next] have "sched_inv (mdl s1)" by simp
    from Cons.IH[OF this] Next show ?thesis by simp
  qed
qed

section \<open>The enumeration\<close>

lemma walkFn_ok:
  "walkFn dirs path name info None =
     Inr (if listed (path, name, info) then hashset_Add dirs path else dirs)"
  by (cases info) (auto simp: walkFn_def listed_def)

lemma walkFn_err: "walkFn dirs path name info (Some e) = Inl e"
  by (simp add: walkFn_def)

lemma set_hashset_Add: "set (hashset_Add dirs x) = insert x (set dirs)"
  by (auto simp: hashset_Add_def)

lemma distinct_hashset_Add: "distinct dirs \<Longrightarrow> distinct (hashset_Add dirs x)"
  by (auto simp: hashset_Add_def)

lemma walk_fails:
  "\<not> traversable node \<Longrightarrow> \<exists>e. walk path name node dirs = Inl e"
  "\<not> traversable_list es \<Longrightarrow> \<exists>e. walk_names path es dirs = Inl e"
proof (induction path name node dirs and path es dirs rule: walk_walk_names.induct)
  case (1 path name dirs)
  then show ?case by simp
next
  case (2 path name dirs)
  then show ?case by (simp add: walkFn_err)
next
  case (3 path name r es dirs)
  then show ?case
    by (auto simp: walkFn_err walkFn_ok)
next
  case (4 path dirs)
  then show ?case by simp
next
  case (5 path name node es dirs)
  then show ?case
    by (cases "walk (Join path name) name node dirs") auto
qed

lemma walk_succeeds:
  "traversable node \<Longrightarrow> \<exists>dirs'. walk path name node dirs = Inr dirs'"
  "traversable_list es \<Longrightarrow> \<exists>dirs'. walk_names path es dirs = Inr dirs'"
proof (induction path name node dirs and path es dirs rule: walk_walk_names.induct)
  case (1 path name dirs)
  then show ?case by (simp add: walkFn_ok)
next
  case (2 path name dirs)
  then show ?case by simp
next
  case (3 path name r es dirs)
  then show ?case by (auto simp: walkFn_ok)
next
  case (4 path dirs)
  then show ?case by simp
next
  case (5 path name node es dirs)
  then show ?case
    by (cases "walk (Join path name) name node dirs") auto
qed

lemma walk_result:
  "walk path name node dirs = Inr dirs' \<Longrightarrow>
     set dirs' = set dirs \<union> fst ` {v \<in> set (nodes path name node). listed v} \<and>
     (distinct dirs \<longrightarrow> distinct dirs')"
  "walk_names path es dirs = Inr dirs' \<Longrightarrow>
     set dirs' = set dirs \<union> fst ` {v \<in> set (nodes_list path es). listed v} \<and>
     (distinct dirs \<longrightarrow> distinct dirs')"
proof (induction path name node dirs and path es dirs arbitrary: dirs' and dirs'
       rule: walk_walk_names.induct)
  case (1 path name dirs)
  then show ?case by (auto simp: walkFn_ok listed_def)
next
  case (2 path name dirs)
  then show ?case by (simp add: walkFn_err)
next
  case (3 path name r es dirs)
  from "3.prems" have r: r by (auto simp: walkFn_err split: if_splits)
  let ?d = "if listed (path, name, Dir r es) then hashset_Add dirs path else dirs"
  from "3.prems" r have w: "walk_names path es ?d = Inr dirs'"
    by (simp add: walkFn_ok)
  have "walkFn dirs path name (Dir r es) None = Inr ?d" by (rule walkFn_ok)
  from "3.IH"[OF _ this w] r
  have "set dirs' = set ?d \<union> fst ` {v \<in> set (nodes_list path es). listed v} \<and>
        (distinct ?d \<longrightarrow> distinct dirs')" by auto
  then have s: "set dirs' = set ?d \<union> fst ` {v \<in> set (nodes_list path es). listed v}"
    and d: "distinct ?d \<longrightarrow> distinct dirs'" by auto
  have n: "{v \<in> set (nodes path name (Dir r es)). listed v} =
             (if listed (path, name, Dir r es) then {(path, name, Dir r es)} else {}) \<union>
             {v \<in> set (nodes_list path es). listed v}"
    by auto
  have sd: "set ?d = set dirs \<union> fst ` (if listed (path, name, Dir r es) then {(path, name, Dir r es)} else {})"
    by (simp add: set_hashset_Add)
  have dd: "distinct dirs \<longrightarrow> distinct ?d"
    by (simp add: distinct_hashset_Add)
  have "set dirs' = set dirs \<union> fst ` {v \<in> set (nodes path name (Dir r es)). listed v}"
    unfolding s n sd image_Un by blast
  with d dd show ?case by blast
next
  case (4 path dirs)
  then show ?case by simp
next
  case (5 path name node es dirs)
  from "5.prems" obtain d1 where
    w1: "walk (Join path name) name node dirs = Inr d1" and
    w2: "walk_names path es d1 = Inr dirs'"
    by (auto split: sum.splits)
  from "5.IH"(1)[OF w1] "5.IH"(2)[OF w1 w2] show ?case by auto
qed

lemma sort_any_order:
  assumes "sorted ds" and "distinct ds" and "distinct vs" and "set vs = set ds"
  shows "sort vs = ds"
proof -
  have "sorted (sort vs)" "distinct (sort vs)" "set (sort vs) = set ds"
    using assms by simp_all
  with assms(1,2) show ?thesis
    by (metis sorted_distinct_set_unique)
qed

lemma findDirectories_Inr:
  assumes "findDirectories env rootDir = Inr ds"
  obtains rd root r es dirs where
    "(if rootDir = [] then userHomeDir env else Some rootDir) = Some rd"
    "absPath env rd = Some root"
    "fsAt env root = Some (Dir r es)"
    "walk root (base_name root) (Dir r es) [] = Inr dirs"
    "ds = sort dirs"
  using assms
  by (auto simp: findDirectories_def split: option.splits fsnode.splits sum.splits if_splits)

section \<open>Properties of the scheduler\<close>

lemma newModel_Inr:
  "newModel env rootDir c = Inr m \<longleftrightarrow>
     (\<exists>dirs. findDirectories env rootDir = Inr dirs \<and> m = fresh_model dirs c)"
  by (auto simp: newModel_def fresh_model_def split: sum.splits)

lemma sched_inv_fresh: "sched_inv (fresh_model dirs c)"
  by (simp add: sched_inv_def fresh_model_def)

lemma sched_inv_not_done:
  assumes "sched_inv m" and "\<not> doneFlag m"
  shows "nextIndex m = index m \<and> inFlight m = 0"
  using assms by (auto simp: sched_inv_def min_def split: if_splits)

text \<open>
  C4 at the list \<open>/r/a\<close>, \<open>/r/b\<close>, \<open>/r/c\<close> with limit 2. \<open>inFlight\<close> is documented as
  the number of \<open>git gc\<close> processes currently running. Right after \<open>Init\<close> two processes
  are running, while the model held by the runtime has \<open>inFlight = 0\<close> and
  \<open>nextIndex - index = 0\<close>: the increments \<open>Init\<close> made went to its own copy, which
  alone has \<open>inFlight = nextIndex = 2\<close>. After two normal exits two processes are
  running again, \<open>done\<close> is not set, and the stored \<open>inFlight\<close> is still 0 with
  \<open>nextIndex - index = 0\<close>. So the number of units in flight is neither the stored
  \<open>inFlight\<close> nor \<open>nextIndex - index\<close>.
\<close>

theorem C4_inFlight_is_not_the_running_count:
  "newModel abc_env ''/r'' 2 = Inr (fresh_model [''/r/a'', ''/r/b'', ''/r/c''] 2) \<and>
   Init_body (fresh_model [''/r/a'', ''/r/b'', ''/r/c''] 2) =
     Inr ((fresh_model [''/r/a'', ''/r/b'', ''/r/c''] 2)\<lparr>inFlight := 2, nextIndex := 2\<rparr>,
          Batch [SpinnerTick, Batch [ExecProcess ''/r/a'', ExecProcess ''/r/b'']]) \<and>
   start (fresh_model [''/r/a'', ''/r/b'', ''/r/c''] 2) =
     Inr \<lparr>mdl = fresh_model [''/r/a'', ''/r/b'', ''/r/c''] 2,
          running = [''/r/a'', ''/r/b''], started = [''/r/a'', ''/r/b'']\<rparr> \<and>
   inFlight (fresh_model [''/r/a'', ''/r/b'', ''/r/c''] 2) = 0 \<and>
   nextIndex (fresh_model [''/r/a'', ''/r/b'', ''/r/c''] 2)
     - index (fresh_model [''/r/a'', ''/r/b'', ''/r/c''] 2) = 0 \<and>
   int (length [''/r/a'', ''/r/b'']) = 2 \<and>
   run \<lparr>mdl = fresh_model [''/r/a'', ''/r/b'', ''/r/c''] 2,
        running = [''/r/a'', ''/r/b''], started = [''/r/a'', ''/r/b'']\<rparr>
       [ProcessExit 0 None, ProcessExit 0 None] =
     Next \<lparr>mdl = (fresh_model [''/r/a'', ''/r/b'', ''/r/c''] 2)
                  \<lparr>progress := Some (2, 3), nextIndex := 2, index := 2\<rparr>,
           running = [''/r/a'', ''/r/b''],
           started = [''/r/a'', ''/r/b'', ''/r/a'', ''/r/b'']\<rparr> \<and>
   \<not> doneFlag ((fresh_model [''/r/a'', ''/r/b'', ''/r/c''] 2)
                  \<lparr>progress := Some (2, 3), nextIndex := 2, index := 2\<rparr>) \<and>
   inFlight ((fresh_model [''/r/a'', ''/r/b'', ''/r/c''] 2)
                  \<lparr>progress := Some (2, 3), nextIndex := 2, index := 2\<rparr>) = 0"
proof -
  have a: "newModel abc_env ''/r'' 2 = Inr (fresh_model [''/r/a'', ''/r/b'', ''/r/c''] 2)"
    by (simp add: example_defs)
  have b: "Init_body (fresh_model [''/r/a'', ''/r/b'', ''/r/c''] 2) =
     Inr ((fresh_model [''/r/a'', ''/r/b'', ''/r/c''] 2)\<lparr>inFlight := 2, nextIndex := 2\<rparr>,
          Batch [SpinnerTick, Batch [ExecProcess ''/r/a'', ExecProcess ''/r/b'']])"
    by code_simp
  have c: "start (fresh_model [''/r/a'', ''/r/b'', ''/r/c''] 2) =
     Inr \<lparr>mdl = fresh_model [''/r/a'', ''/r/b'', ''/r/c''] 2,
          running = [''/r/a'', ''/r/b''], started = [''/r/a'', ''/r/b'']\<rparr>"
    by code_simp
  have d: "inFlight (fresh_model [''/r/a'', ''/r/b'', ''/r/c''] 2) = 0 \<and>
     nextIndex (fresh_model [''/r/a'', ''/r/b'', ''/r/c''] 2)
       - index (fresh_model [''/r/a'', ''/r/b'', ''/r/c''] 2) = 0 \<and>
     int (length [''/r/a'', ''/r/b'']) = 2"
    by (simp add: fresh_model_def)
  have e: "run \<lparr>mdl = fresh_model [''/r/a'', ''/r/b'', ''/r/c''] 2,
        running = [''/r/a'', ''/r/b''], started = [''/r/a'', ''/r/b'']\<rparr>
       [ProcessExit 0 None, ProcessExit 0 None] =
     Next \<lparr>mdl = (fresh_model [''/r/a'', ''/r/b'', ''/r/c''] 2)
                  \<lparr>progress := Some (2, 3), nextIndex := 2, index := 2\<rparr>,
           running = [''/r/a'', ''/r/b''],
           started = [''/r/a'', ''/r/b'', ''/r/a'', ''/r/b'']\<rparr>"
    by code_simp
  have f: "\<not> doneFlag ((fresh_model [''/r/a'', ''/r/b'', ''/r/c''] 2)
                  \<lparr>progress := Some (2, 3), nextIndex := 2, index := 2\<rparr>) \<and>
     inFlight ((fresh_model [''/r/a'', ''/r/b'', ''/r/c''] 2)
                  \<lparr>progress := Some (2, 3), nextIndex := 2, index := 2\<rparr>) = 0"
    by (simp add: fresh_model_def)
  from a b c d e f show ?thesis by blast
qed

lemma step_idle:
  assumes "running s = []" and "step s ev = Next s'"
  shows "running s' = [] \<and> started s' = started s \<and> directories (mdl s') = directories (mdl s) \<and>
         index (mdl s') = index (mdl s) \<and> doneFlag (mdl s') = doneFlag (mdl s) \<and>
         progress (mdl s') = progress (mdl s)"
proof (cases ev)
  case (ProcessExit i exitErr)
  with assms show ?thesis by (simp add: step_def)
next
  case (Incoming message)
  with assms(2) have rt: "from_runtime message"
    by (auto simp: step_def split: if_splits)
  from assms(2) Incoming rt obtain m' c where
    u: "Update (mdl s) message = Inr (m', c)" and
    s': "s' = \<lparr>mdl = m', running = running s @ execs c, started = started s @ execs c\<rparr>"
    by (auto simp: step_def deliver_def split: sum.splits)
  from Update_runtime[OF rt, of "mdl s"] u assms(1) show ?thesis
    by (auto simp: s')
qed

lemma run_idle:
  assumes "running s = []" and "run s evs = Next s'"
  shows "running s' = [] \<and> started s' = started s \<and> directories (mdl s') = directories (mdl s) \<and>
         index (mdl s') = index (mdl s) \<and> doneFlag (mdl s') = doneFlag (mdl s) \<and>
         progress (mdl s') = progress (mdl s)"
  using assms
proof (induction evs arbitrary: s)
  case Nil
  then show ?case by simp
next
  case (Cons ev evs)
  from Cons.prems(2) obtain s1 where s1: "step s ev = Next s1" and r: "run s1 evs = Next s'"
    by (auto split: step_result.splits)
  from step_idle[OF Cons.prems(1) s1] Cons.IH[OF _ r] show ?case by simp
qed

text \<open>
  C10. \<open>newModel\<close> stores whatever limit it is given. Over a non-empty list, a limit of
  0 makes \<open>Init\<close> start nothing, after which no process is ever running, no completion
  is ever counted and \<open>done\<close> is never set; a negative limit makes \<open>Init\<close> panic on the
  negative slice length.
\<close>

theorem C10_limit_not_enforced:
  assumes "findDirectories env rootDir = Inr dirs" and "dirs \<noteq> []"
  shows "newModel env rootDir c = Inr (fresh_model dirs c) \<and>
         concurrency (fresh_model dirs c) = c \<and>
         (c = 0 \<longrightarrow>
            start (fresh_model dirs c) =
              Inr \<lparr>mdl = fresh_model dirs c, running = [], started = []\<rparr> \<and>
            (\<forall>evs s. run \<lparr>mdl = fresh_model dirs c, running = [], started = []\<rparr> evs = Next s \<longrightarrow>
               running s = [] \<and> started s = [] \<and> index (mdl s) = 0 \<and> \<not> doneFlag (mdl s))) \<and>
         (c < 0 \<longrightarrow> Init (fresh_model dirs c) = Inl MakeSliceLenOutOfRange)"
proof -
  let ?m = "fresh_model dirs c"
  let ?idle = "\<lparr>mdl = ?m, running = [], started = []\<rparr>"
  have a: "newModel env rootDir c = Inr ?m"
    using assms(1) by (simp add: newModel_Inr)
  have b: "concurrency ?m = c" by (simp add: fresh_model_def)
  have d: "directories ?m = dirs" by (simp add: fresh_model_def)
  have z: "c = 0 \<longrightarrow> start ?m = Inr ?idle"
  proof
    assume c: "c = 0"
    have "nextIndex ?m = 0" and "0 \<le> concurrency ?m"
      by (simp_all add: fresh_model_def c)
    from start_fresh[OF this] have "start ?m = Inr \<lparr>mdl = ?m,
        running = take (nat (min c (int (length dirs)))) dirs,
        started = take (nat (min c (int (length dirs)))) dirs\<rparr>"
      by (simp only: b d)
    then show "start ?m = Inr ?idle"
      by (simp add: c)
  qed
  have r: "\<forall>evs s. run ?idle evs = Next s \<longrightarrow>
             running s = [] \<and> started s = [] \<and> index (mdl s) = 0 \<and> \<not> doneFlag (mdl s)"
  proof (intro allI impI)
    fix evs s
    assume "run ?idle evs = Next s"
    from run_idle[OF _ this] show
      "running s = [] \<and> started s = [] \<and> index (mdl s) = 0 \<and> \<not> doneFlag (mdl s)"
      by (simp add: fresh_model_def)
  qed
  have n: "c < 0 \<longrightarrow> Init ?m = Inl MakeSliceLenOutOfRange"
    using Init_negative[of ?m] assms(2) by (simp add: b d)
  from a b z r n show ?thesis by blast
qed

theorem C10_limit_not_enforced_witness:
  "newModel abc_env ''/r'' 0 = Inr (fresh_model [''/r/a'', ''/r/b'', ''/r/c''] 0) \<and>
   start (fresh_model [''/r/a'', ''/r/b'', ''/r/c''] 0) =
     Inr \<lparr>mdl = fresh_model [''/r/a'', ''/r/b'', ''/r/c''] 0, running = [], started = []\<rparr> \<and>
   newModel abc_env ''/r'' (- 1) = Inr (fresh_model [''/r/a'', ''/r/b'', ''/r/c''] (- 1)) \<and>
   Init (fresh_model [''/r/a'', ''/r/b'', ''/r/c''] (- 1)) = Inl MakeSliceLenOutOfRange"
proof -
  have a: "findDirectories abc_env ''/r'' = Inr [''/r/a'', ''/r/b'', ''/r/c'']"
    by (simp add: example_defs)
  have b: "[''/r/a'', ''/r/b'', ''/r/c''] \<noteq> []" by simp
  from C10_limit_not_enforced[OF a b, of 0] C10_limit_not_enforced[OF a b, of "- 1"]
  show ?thesis by simp
qed

text \<open>
  C6 as stated fails on a root without repositories: after initialisation the \<open>done\<close>
  flag is not set and the view is the running line, with no percentage reported.
\<close>

theorem C6_no_done_report_counterexample:
  "newModel empty_env ''/r'' 2 = Inr (fresh_model [] 2) \<and>
   start (fresh_model [] 2) = Inr \<lparr>mdl = fresh_model [] 2, running = [], started = []\<rparr> \<and>
   \<not> doneFlag (fresh_model [] 2) \<and>
   View (fresh_model [] 2) =
     RunningView (Sprintf ''Cleaning repos... %d/%d complete'' [0, 0]) None
       (Sprintf '' %d/%d'' [0, 0])"
  by (simp add: example_defs run_defs View_def)

text \<open>
  C6, amended. For the empty list \<open>Init\<close> starts no process and issues the quit command
  at once; the \<open>done\<close> flag is never set, no percentage is ever set, and the view stays
  the running line showing 0/0.
\<close>

theorem C6_empty_list_quits:
  assumes "newModel env rootDir c = Inr m0" and "directories m0 = []"
  shows "Init m0 = Inr (Sequence [SpinnerTick, Quit]) \<and>
         start m0 = Inr \<lparr>mdl = m0, running = [], started = []\<rparr> \<and>
         (\<forall>evs s. run \<lparr>mdl = m0, running = [], started = []\<rparr> evs = Next s \<longrightarrow>
            started s = [] \<and> \<not> doneFlag (mdl s) \<and>
            View (mdl s) =
              RunningView (Sprintf ''Cleaning repos... %d/%d complete'' [0, 0]) None
                (Sprintf '' %d/%d'' [0, 0]))"
proof -
  let ?idle = "\<lparr>mdl = m0, running = [], started = []\<rparr>"
  from assms have m0: "m0 = fresh_model [] c"
    by (auto simp: newModel_Inr fresh_model_def)
  have i: "Init m0 = Inr (Sequence [SpinnerTick, Quit])"
    using assms(2) by (rule Init_empty)
  then have s: "start m0 = Inr ?idle" by (simp add: start_def)
  have r: "\<forall>evs s. run ?idle evs = Next s \<longrightarrow>
            started s = [] \<and> \<not> doneFlag (mdl s) \<and>
            View (mdl s) =
              RunningView (Sprintf ''Cleaning repos... %d/%d complete'' [0, 0]) None
                (Sprintf '' %d/%d'' [0, 0])"
  proof (intro allI impI)
    fix evs s
    assume "run ?idle evs = Next s"
    from run_idle[OF _ this] show
      "started s = [] \<and> \<not> doneFlag (mdl s) \<and>
       View (mdl s) =
         RunningView (Sprintf ''Cleaning repos... %d/%d complete'' [0, 0]) None
           (Sprintf '' %d/%d'' [0, 0])"
      by (simp add: m0 fresh_model_def View_def)
  qed
  from i s r show ?thesis by blast
qed

theorem C6_empty_list_quits_witness:
  "newModel empty_env ''/r'' 2 = Inr (fresh_model [] 2) \<and>
   Init (fresh_model [] 2) = Inr (Sequence [SpinnerTick, Quit]) \<and>
   run \<lparr>mdl = fresh_model [] 2, running = [], started = []\<rparr> [Incoming SpinnerTickMsg, Incoming QuitMsg] =
     Next \<lparr>mdl = fresh_model [] 2, running = [], started = []\<rparr> \<and>
   \<not> doneFlag (fresh_model [] 2)"
proof -
  have a: "newModel empty_env ''/r'' 2 = Inr (fresh_model [] 2)"
    by (simp add: example_defs)
  have b: "directories (fresh_model [] 2) = []" by (simp add: fresh_model_def)
  have c: "run \<lparr>mdl = fresh_model [] 2, running = [], started = []\<rparr>
             [Incoming SpinnerTickMsg, Incoming QuitMsg] =
           Next \<lparr>mdl = fresh_model [] 2, running = [], started = []\<rparr>"
    by (simp add: run_defs)
  have d: "\<not> doneFlag (fresh_model [] 2)" by (simp add: fresh_model_def)
  from C6_empty_list_quits[OF a b] a c d show ?thesis by simp
qed

text \<open>
  C1 as stated fails: when the process of \<open>/r/a\<close> ends with exit status 1, the message
  of its callback leaves \<open>index\<close> at 0, where a normal exit moves it to 1.
\<close>

theorem C1_failure_not_counted_counterexample:
  "Update (fresh_model [''/r/a'', ''/r/b'', ''/r/c''] 2)
     (runGitGC_callback ''/r/a'' (Some (ExitError 1))) =
     Inr (fresh_model [''/r/a'', ''/r/b'', ''/r/c''] 2, NilCmd) \<and>
   index (fresh_model [''/r/a'', ''/r/b'', ''/r/c''] 2) = 0 \<and>
   Update (fresh_model [''/r/a'', ''/r/b'', ''/r/c''] 2) (runGitGC_callback ''/r/a'' None) =
     Inr ((fresh_model [''/r/a'', ''/r/b'', ''/r/c''] 2)
            \<lparr>progress := Some (1, 3), nextIndex := 1, index := 1\<rparr>,
          Batch [SetPercent 1 3, Printf ''/r/a'', ExecProcess ''/r/a''])"
  by (simp add: run_defs fresh_model_def)

text \<open>
  C1, amended. A process that ends with an error (non-zero status, or not started)
  produces no completion message: what its callback returns leaves the model as it
  was, so the failure is not counted, and starts no further process. Only a process
  that ends without error produces the completion message, and that message moves
  \<open>index\<close> up by one.
\<close>

theorem C1_only_success_is_counted:
  "(\<forall>pkg. runGitGC_callback dir (Some e) \<noteq> DirGitGCCompleted pkg) \<and>
   (\<exists>c. Update m (runGitGC_callback dir (Some e)) = Inr (m, c) \<and> execs c = []) \<and>
   runGitGC_callback dir None = DirGitGCCompleted dir \<and>
   (0 \<le> nextIndex m \<longrightarrow>
      (\<exists>m' c. Update m (runGitGC_callback dir None) = Inr (m', c) \<and> index m' = index m + 1))"
proof -
  have a: "\<forall>pkg. runGitGC_callback dir (Some e) \<noteq> DirGitGCCompleted pkg"
    by (simp add: runGitGC_callback_def)
  have b: "\<exists>c. Update m (runGitGC_callback dir (Some e)) = Inr (m, c) \<and> execs c = []"
    by (simp add: runGitGC_callback_def Update_quit_value)
  have c: "runGitGC_callback dir None = DirGitGCCompleted dir"
    by (simp add: runGitGC_callback_def)
  have d: "0 \<le> nextIndex m \<longrightarrow>
      (\<exists>m' c. Update m (runGitGC_callback dir None) = Inr (m', c) \<and> index m' = index m + 1)"
  proof
    assume "0 \<le> nextIndex m"
    from Update_completed_ok[OF this, of dir]
    show "\<exists>m' c. Update m (runGitGC_callback dir None) = Inr (m', c) \<and> index m' = index m + 1"
      unfolding c by blast
  qed
  from a b c d show ?thesis by blast
qed

theorem C1_only_success_is_counted_witness:
  "0 \<le> nextIndex (fresh_model [''/r/a'', ''/r/b'', ''/r/c''] 2) \<and>
   (\<exists>m' c. Update (fresh_model [''/r/a'', ''/r/b'', ''/r/c''] 2) (runGitGC_callback ''/r/b'' None) =
             Inr (m', c) \<and>
           index m' = index (fresh_model [''/r/a'', ''/r/b'', ''/r/c''] 2) + 1) \<and>
   (\<exists>c. Update (fresh_model [''/r/a'', ''/r/b'', ''/r/c''] 2)
           (runGitGC_callback ''/r/b'' (Some StartError)) =
           Inr (fresh_model [''/r/a'', ''/r/b'', ''/r/c''] 2, c) \<and> execs c = [])"
proof -
  have h: "0 \<le> nextIndex (fresh_model [''/r/a'', ''/r/b'', ''/r/c''] 2)"
    by (simp add: fresh_model_def)
  from C1_only_success_is_counted[of "''/r/b''" StartError
      "fresh_model [''/r/a'', ''/r/b'', ''/r/c''] 2"] h
  show ?thesis by blast
qed

text \<open>
  C3 at the list \<open>/r/a\<close>, \<open>/r/b\<close>, \<open>/r/c\<close> with limit 2, every process ending
  normally: \<open>Init\<close> starts \<open>a\<close> and \<open>b\<close>, and since the model held by the runtime still
  has \<open>nextIndex = 0\<close>, the first two completions start \<open>a\<close> and \<open>b\<close> again. The third
  completion sets \<open>done\<close>; by then four processes were started over three items and
  \<open>c\<close> was started by none of them.
\<close>

theorem C3_items_started_twice:
  "newModel abc_env ''/r'' 2 = Inr (fresh_model [''/r/a'', ''/r/b'', ''/r/c''] 2) \<and>
   start (fresh_model [''/r/a'', ''/r/b'', ''/r/c''] 2) =
     Inr \<lparr>mdl = fresh_model [''/r/a'', ''/r/b'', ''/r/c''] 2,
          running = [''/r/a'', ''/r/b''], started = [''/r/a'', ''/r/b'']\<rparr> \<and>
   run \<lparr>mdl = fresh_model [''/r/a'', ''/r/b'', ''/r/c''] 2,
        running = [''/r/a'', ''/r/b''], started = [''/r/a'', ''/r/b'']\<rparr>
       [ProcessExit 0 None] =
     Next \<lparr>mdl = (fresh_model [''/r/a'', ''/r/b'', ''/r/c''] 2)
                  \<lparr>progress := Some (1, 3), nextIndex := 1, index := 1\<rparr>,
           running = [''/r/b'', ''/r/a''], started = [''/r/a'', ''/r/b'', ''/r/a'']\<rparr> \<and>
   run \<lparr>mdl = fresh_model [''/r/a'', ''/r/b'', ''/r/c''] 2,
        running = [''/r/a'', ''/r/b''], started = [''/r/a'', ''/r/b'']\<rparr>
       [ProcessExit 0 None, ProcessExit 0 None, ProcessExit 0 None] =
     Next \<lparr>mdl = (fresh_model [''/r/a'', ''/r/b'', ''/r/c''] 2)
                  \<lparr>progress := Some (3, 3), doneFlag := True, nextIndex := 3, index := 3\<rparr>,
           running = [''/r/b''],
           started = [''/r/a'', ''/r/b'', ''/r/a'', ''/r/b'']\<rparr>"
proof -
  have a: "newModel abc_env ''/r'' 2 = Inr (fresh_model [''/r/a'', ''/r/b'', ''/r/c''] 2)"
    by (simp add: example_defs)
  have b: "start (fresh_model [''/r/a'', ''/r/b'', ''/r/c''] 2) =
     Inr \<lparr>mdl = fresh_model [''/r/a'', ''/r/b'', ''/r/c''] 2,
          running = [''/r/a'', ''/r/b''], started = [''/r/a'', ''/r/b'']\<rparr>"
    by code_simp
  have c: "run \<lparr>mdl = fresh_model [''/r/a'', ''/r/b'', ''/r/c''] 2,
        running = [''/r/a'', ''/r/b''], started = [''/r/a'', ''/r/b'']\<rparr>
       [ProcessExit 0 None] =
     Next \<lparr>mdl = (fresh_model [''/r/a'', ''/r/b'', ''/r/c''] 2)
                  \<lparr>progress := Some (1, 3), nextIndex := 1, index := 1\<rparr>,
           running = [''/r/b'', ''/r/a''], started = [''/r/a'', ''/r/b'', ''/r/a'']\<rparr>"
    by code_simp
  have d: "run \<lparr>mdl = fresh_model [''/r/a'', ''/r/b'', ''/r/c''] 2,
        running = [''/r/a'', ''/r/b''], started = [''/r/a'', ''/r/b'']\<rparr>
       [ProcessExit 0 None, ProcessExit 0 None, ProcessExit 0 None] =
     Next \<lparr>mdl = (fresh_model [''/r/a'', ''/r/b'', ''/r/c''] 2)
                  \<lparr>progress := Some (3, 3), doneFlag := True, nextIndex := 3, index := 3\<rparr>,
           running = [''/r/b''],
           started = [''/r/a'', ''/r/b'', ''/r/a'', ''/r/b'']\<rparr>"
    by code_simp
  from a b c d show ?thesis by (intro conjI)
qed

text \<open>
  C5 at the list \<open>/r/a\<close>, \<open>/r/b\<close> with limit 1. \<open>Init\<close> starts \<open>a\<close>, the item at index 0,
  as the claim says. The first completion starts the item at the stored \<open>nextIndex\<close>,
  which is still 0: \<open>a\<close> again. At the second completion \<open>nextIndex = 1 < 2\<close>, yet the
  command returned starts nothing (the batch of the \<open>done\<close> branch leaves \<open>nextCmd\<close>
  out), so \<open>b\<close> is never started.
\<close>

theorem C5_next_item_not_started:
  "newModel ab_env ''/r'' 1 = Inr (fresh_model [''/r/a'', ''/r/b''] 1) \<and>
   Init (fresh_model [''/r/a'', ''/r/b''] 1) =
     Inr (Batch [SpinnerTick, Batch [ExecProcess ''/r/a'']]) \<and>
   Update (fresh_model [''/r/a'', ''/r/b''] 1) (DirGitGCCompleted ''/r/a'') =
     Inr ((fresh_model [''/r/a'', ''/r/b''] 1)
            \<lparr>progress := Some (1, 2), nextIndex := 1, index := 1\<rparr>,
          Batch [SetPercent 1 2, Printf ''/r/a'', ExecProcess ''/r/a'']) \<and>
   nextIndex ((fresh_model [''/r/a'', ''/r/b''] 1)
            \<lparr>progress := Some (1, 2), nextIndex := 1, index := 1\<rparr>)
     < int (length [''/r/a'', ''/r/b'']) \<and>
   Update ((fresh_model [''/r/a'', ''/r/b''] 1)
            \<lparr>progress := Some (1, 2), nextIndex := 1, index := 1\<rparr>)
       (DirGitGCCompleted ''/r/a'') =
     Inr ((fresh_model [''/r/a'', ''/r/b''] 1)
            \<lparr>progress := Some (2, 2), doneFlag := True, nextIndex := 2, index := 2\<rparr>,
          Batch [SetPercent 2 2, Printf ''/r/a'', Quit])"
  by (simp add: example_defs run_defs)

section \<open>Properties of the enumeration\<close>

lemma listed_iff:
  "listed (path, name, node) \<longleftrightarrow>
     (\<exists>r es. node = Dir r es \<and> \<not> HasPrefix name ''.'' \<and> stat_entry es ''.git'')"
  by (cases node) (auto simp: listed_def)

lemma findDirectories_result:
  assumes "findDirectories env rootDir = Inr ds"
    and "(if rootDir = [] then userHomeDir env else Some rootDir) = Some rd"
    and "absPath env rd = Some root"
    and "fsAt env root = Some tree"
  shows "set ds = fst ` {v \<in> set (nodes root (base_name root) tree). listed v}"
proof -
  from assms obtain r es dirs where
    t: "tree = Dir r es" and
    w: "walk root (base_name root) (Dir r es) [] = Inr dirs" and
    ds: "ds = sort dirs"
    by (auto simp: findDirectories_def split: option.splits fsnode.splits sum.splits if_splits)
  from walk_result(1)[OF w] show ?thesis by (simp add: t ds)
qed

lemma findDirectories_sorted_distinct:
  assumes "findDirectories env rootDir = Inr ds"
  shows "sorted ds \<and> distinct ds"
proof -
  from assms obtain root r es dirs where
    w: "walk root (base_name root) (Dir r es) [] = Inr dirs" and ds: "ds = sort dirs"
    by (auto simp: findDirectories_def split: option.splits fsnode.splits sum.splits if_splits)
  from walk_result(1)[OF w] have "distinct dirs" by simp
  then show ?thesis by (simp add: ds)
qed

text \<open>
  C7. A successful enumeration returns a list that is sorted and free of duplicates,
  and it is the same list in whatever order the members of the hash set are handed to
  the sort: the result is a function of the directory tree alone.
\<close>

theorem C7_sorted_duplicate_free:
  assumes "findDirectories env rootDir = Inr ds"
  shows "sorted ds \<and> distinct ds \<and>
         (\<forall>vs. distinct vs \<and> set vs = set ds \<longrightarrow> sort vs = ds) \<and>
         (\<forall>ds'. findDirectories env rootDir = Inr ds' \<longrightarrow> ds' = ds)"
proof -
  from findDirectories_sorted_distinct[OF assms] have sd: "sorted ds" "distinct ds" by simp_all
  have "\<forall>vs. distinct vs \<and> set vs = set ds \<longrightarrow> sort vs = ds"
    using sort_any_order[OF sd] by blast
  with sd assms show ?thesis by simp
qed

theorem C7_sorted_duplicate_free_witness:
  "findDirectories abc_env ''/r'' = Inr [''/r/a'', ''/r/b'', ''/r/c''] \<and>
   sorted [''/r/a'', ''/r/b'', ''/r/c''] \<and> distinct [''/r/a'', ''/r/b'', ''/r/c''] \<and>
   sort [''/r/c'', ''/r/a'', ''/r/b''] = [''/r/a'', ''/r/b'', ''/r/c'']"
proof -
  have a: "findDirectories abc_env ''/r'' = Inr [''/r/a'', ''/r/b'', ''/r/c'']"
    by (simp add: example_defs)
  have b: "distinct [''/r/c'', ''/r/a'', ''/r/b''] \<and>
           set [''/r/c'', ''/r/a'', ''/r/b''] = set [''/r/a'', ''/r/b'', ''/r/c'']"
    by auto
  from C7_sorted_duplicate_free[OF a] a b show ?thesis by blast
qed

text \<open>
  C8 as stated fails where \<open>.git\<close> is a regular file: the directory \<open>/r/wt\<close> holds a
  file of that name and no \<open>.git\<close> directory, and it is enumerated.
\<close>

theorem C8_git_file_counterexample:
  "fsAt worktree_env ''/r'' = Some (Dir True [(''wt'', Dir True [(''.git'', File)])]) \<and>
   findDirectories worktree_env ''/r'' = Inr [''/r/wt'']"
  by (simp add: example_defs)

text \<open>
  C8, amended. The enumerated list holds exactly the paths of the visited nodes that
  are directories, have a name not beginning with a dot, and have a \<open>.git\<close> entry
  that \<open>os.Stat\<close> accepts, be it a directory or a file.
\<close>

theorem C8_listed_exactly:
  assumes "findDirectories env rootDir = Inr ds"
    and "(if rootDir = [] then userHomeDir env else Some rootDir) = Some rd"
    and "absPath env rd = Some root"
    and "fsAt env root = Some tree"
  shows "set ds =
           {path. \<exists>name r es. (path, name, Dir r es) \<in> set (nodes root (base_name root) tree) \<and>
                   \<not> HasPrefix name ''.'' \<and> stat_entry es ''.git''}"
proof -
  have "fst ` {v \<in> set (nodes root (base_name root) tree). listed v} =
        {path. \<exists>name r es. (path, name, Dir r es) \<in> set (nodes root (base_name root) tree) \<and>
                   \<not> HasPrefix name ''.'' \<and> stat_entry es ''.git''}"
  proof (intro set_eqI iffI)
    fix path
    assume "path \<in> fst ` {v \<in> set (nodes root (base_name root) tree). listed v}"
    then obtain name node where
      "(path, name, node) \<in> set (nodes root (base_name root) tree)" and "listed (path, name, node)"
      by auto
    then show "path \<in> {path. \<exists>name r es.
        (path, name, Dir r es) \<in> set (nodes root (base_name root) tree) \<and>
        \<not> HasPrefix name ''.'' \<and> stat_entry es ''.git''}"
      by (cases node) (auto simp: listed_iff)
  next
    fix path
    assume "path \<in> {path. \<exists>name r es.
        (path, name, Dir r es) \<in> set (nodes root (base_name root) tree) \<and>
        \<not> HasPrefix name ''.'' \<and> stat_entry es ''.git''}"
    then obtain name r es where
      "(path, name, Dir r es) \<in> set (nodes root (base_name root) tree)"
      "listed (path, name, Dir r es)"
      by (auto simp: listed_iff)
    then show "path \<in> fst ` {v \<in> set (nodes root (base_name root) tree). listed v}"
      by force
  qed
  with findDirectories_result[OF assms] show ?thesis by simp
qed

theorem C8_listed_exactly_witness:
  "findDirectories worktree_env ''/r'' = Inr [''/r/wt''] \<and>
   set [''/r/wt''] =
     {path. \<exists>name r es.
        (path, name, Dir r es)
          \<in> set (nodes ''/r'' (base_name ''/r'') (Dir True [(''wt'', Dir True [(''.git'', File)])])) \<and>
        \<not> HasPrefix name ''.'' \<and> stat_entry es ''.git''}"
proof -
  have a: "findDirectories worktree_env ''/r'' = Inr [''/r/wt'']"
    by (simp add: example_defs)
  have b: "(if ''/r'' = [] then userHomeDir worktree_env else Some ''/r'') = Some ''/r''"
    by simp
  have c: "absPath worktree_env ''/r'' = Some ''/r''"
    by (simp add: example_defs)
  have d: "fsAt worktree_env ''/r'' = Some (Dir True [(''wt'', Dir True [(''.git'', File)])])"
    by (simp add: example_defs)
  from C8_listed_exactly[OF a b c d] a show ?thesis by simp
qed

lemma nodes_below:
  "(hp, hn, Dir hr hes) \<in> set (nodes path name node) \<Longrightarrow>
     set (nodes_list hp hes) \<subseteq> set (nodes path name node)"
  "(hp, hn, Dir hr hes) \<in> set (nodes_list path es) \<Longrightarrow>
     set (nodes_list hp hes) \<subseteq> set (nodes_list path es)"
  by (induction path name node and path es rule: nodes_nodes_list.induct) auto

text \<open>
  C2 as stated fails: \<open>/r/.h\<close> is hidden, the repository \<open>/r/.h/repo\<close> lies below it,
  and the enumeration returns it.
\<close>

theorem C2_hidden_not_pruned_counterexample:
  "fsAt hidden_env ''/r'' =
     Some (Dir True [(''.h'', Dir True [(''repo'', Dir True [(''.git'', Dir True [])])])]) \<and>
   findDirectories hidden_env ''/r'' = Inr [''/r/.h/repo'']"
  by (simp add: example_defs)

text \<open>
  C2, amended. A hidden directory is not pruned: the walk visits what is below it, and
  a directory anywhere below a hidden directory is enumerated when its own name does
  not begin with a dot and its \<open>.git\<close> entry can be stat'ed. What the name filter
  does is keep out of the list every path that no visited directory with a
  non-hidden name has.
\<close>

theorem C2_hidden_directories_entered:
  assumes "findDirectories env rootDir = Inr ds"
    and "(if rootDir = [] then userHomeDir env else Some rootDir) = Some rd"
    and "absPath env rd = Some root"
    and "fsAt env root = Some tree"
  shows "(\<forall>hp hn hr hes path name r es.
            (hp, hn, Dir hr hes) \<in> set (nodes root (base_name root) tree) \<and>
            HasPrefix hn ''.'' \<and>
            (path, name, Dir r es) \<in> set (nodes_list hp hes) \<and>
            \<not> HasPrefix name ''.'' \<and> stat_entry es ''.git''
            \<longrightarrow> path \<in> set ds) \<and>
         (\<forall>path. path \<in> set ds \<longrightarrow>
            (\<exists>name r es. (path, name, Dir r es) \<in> set (nodes root (base_name root) tree) \<and>
               \<not> HasPrefix name ''.''))"
proof -
  let ?all = "set (nodes root (base_name root) tree)"
  have res: "set ds = fst ` {v \<in> ?all. listed v}"
    using assms by (rule findDirectories_result)
  have below: "\<forall>hp hn hr hes path name r es.
            (hp, hn, Dir hr hes) \<in> ?all \<and> HasPrefix hn ''.'' \<and>
            (path, name, Dir r es) \<in> set (nodes_list hp hes) \<and>
            \<not> HasPrefix name ''.'' \<and> stat_entry es ''.git''
            \<longrightarrow> path \<in> set ds"
  proof (intro allI impI)
    fix hp hn hr hes path name r es
    assume h: "(hp, hn, Dir hr hes) \<in> ?all \<and> HasPrefix hn ''.'' \<and>
            (path, name, Dir r es) \<in> set (nodes_list hp hes) \<and>
            \<not> HasPrefix name ''.'' \<and> stat_entry es ''.git''"
    then have "(path, name, Dir r es) \<in> ?all"
      using nodes_below(1)[of hp hn hr hes root "base_name root" tree] by blast
    moreover from h have "listed (path, name, Dir r es)"
      by (simp add: listed_iff)
    ultimately show "path \<in> set ds"
      unfolding res by force
  qed
  have named: "\<forall>path. path \<in> set ds \<longrightarrow>
            (\<exists>name r es. (path, name, Dir r es) \<in> ?all \<and> \<not> HasPrefix name ''.'')"
  proof (intro allI impI)
    fix path
    assume "path \<in> set ds"
    then obtain name node where
      "(path, name, node) \<in> ?all" and "listed (path, name, node)"
      unfolding res by auto
    then show "\<exists>name r es. (path, name, Dir r es) \<in> ?all \<and> \<not> HasPrefix name ''.''"
      by (auto simp: listed_iff)
  qed
  from below named show ?thesis by blast
qed

theorem C2_hidden_directories_entered_witness:
  "findDirectories hidden_env ''/r'' = Inr [''/r/.h/repo''] \<and>
   (''/r/.h'', ''.h'', Dir True [(''repo'', repo)])
      \<in> set (nodes ''/r'' (base_name ''/r'') (Dir True [(''.h'', Dir True [(''repo'', repo)])])) \<and>
   HasPrefix ''.h'' ''.'' \<and>
   (''/r/.h/repo'', ''repo'', Dir True [(''.git'', Dir True [])])
      \<in> set (nodes_list ''/r/.h'' [(''repo'', repo)]) \<and>
   \<not> HasPrefix ''repo'' ''.'' \<and> stat_entry [(''.git'', Dir True [])] ''.git'' \<and>
   ''/r/.h/repo'' \<in> set [''/r/.h/repo'']"
proof -
  have a: "findDirectories hidden_env ''/r'' = Inr [''/r/.h/repo'']"
    by (simp add: example_defs)
  have b: "(if ''/r'' = [] then userHomeDir hidden_env else Some ''/r'') = Some ''/r''"
    by simp
  have c: "absPath hidden_env ''/r'' = Some ''/r''"
    by (simp add: example_defs)
  have d: "fsAt hidden_env ''/r'' = Some (Dir True [(''.h'', Dir True [(''repo'', repo)])])"
    by (simp add: hidden_env_def env_of_def)
  have e: "(''/r/.h'', ''.h'', Dir True [(''repo'', repo)])
      \<in> set (nodes ''/r'' (base_name ''/r'') (Dir True [(''.h'', Dir True [(''repo'', repo)])])) \<and>
    HasPrefix ''.h'' ''.'' \<and>
    (''/r/.h/repo'', ''repo'', Dir True [(''.git'', Dir True [])])
      \<in> set (nodes_list ''/r/.h'' [(''repo'', repo)]) \<and>
    \<not> HasPrefix ''repo'' ''.'' \<and> stat_entry [(''.git'', Dir True [])] ''.git''"
    by (simp add: repo_def Join_def HasPrefix_def stat_entry_def)
  from C2_hidden_directories_entered[OF a b c d] e
  have "''/r/.h/repo'' \<in> set [''/r/.h/repo'']" by blast
  with a e show ?thesis by blast
qed

text \<open>
  C9. When nothing can be stat'ed at the root path, or what is there is not a
  directory, or some \<open>lstat\<close> or directory listing below it fails, \<open>findDirectories\<close>
  returns an error, \<open>newModel\<close> returns the same error and builds no model, so that
  nothing is ever started; \<open>main\<close>, whose root argument is the empty string, then
  leaves with status 1.
\<close>

theorem C9_discovery_error_is_fatal:
  assumes "(if rootDir = [] then userHomeDir env else Some rootDir) = Some rd"
    and "absPath env rd = Some root"
    and "\<forall>tree. fsAt env root = Some tree \<longrightarrow> \<not> IsDir tree \<or> \<not> traversable tree"
  shows "\<exists>e. findDirectories env rootDir = Inl e \<and>
           newModel env rootDir c = Inl e \<and>
           (rootDir = [] \<longrightarrow> main env = Exit 1)"
proof -
  have "\<exists>e. findDirectories env rootDir = Inl e"
  proof (cases "fsAt env root")
    case None
    with assms(1,2) show ?thesis
      by (auto simp: findDirectories_def split: if_splits)
  next
    case (Some tree)
    show ?thesis
    proof (cases tree)
      case File
      with Some assms(1,2) show ?thesis
        by (auto simp: findDirectories_def split: if_splits)
    next
      case Unstatable
      with Some assms(1,2) show ?thesis
        by (auto simp: findDirectories_def split: if_splits)
    next
      case (Dir r es)
      with Some assms(3) have "\<not> traversable (Dir r es)" by simp
      from walk_fails(1)[OF this] obtain e where
        "walk root (base_name root) (Dir r es) [] = Inl e" by blast
      with Some Dir assms(1,2) show ?thesis
        by (auto simp: findDirectories_def split: if_splits)
    qed
  qed
  then obtain e where e: "findDirectories env rootDir = Inl e" by blast
  then have n: "newModel env rootDir c = Inl e" by (simp add: newModel_def)
  have "rootDir = [] \<longrightarrow> main env = Exit 1"
  proof
    assume "rootDir = []"
    with e have "findDirectories env [] = Inl e" by simp
    then show "main env = Exit 1" by (simp add: main_def newModel_def)
  qed
  with e n show ?thesis by blast
qed

theorem C9_discovery_error_is_fatal_witness:
  "absPath locked_env ''/r'' = Some ''/r'' \<and>
   fsAt locked_env ''/r'' = Some (Dir True [(''a'', repo), (''locked'', Dir False [])]) \<and>
   \<not> traversable (Dir True [(''a'', repo), (''locked'', Dir False [])]) \<and>
   findDirectories locked_env [] = Inl (ReadDirError ''/r/locked'') \<and>
   newModel locked_env [] 4 = Inl (ReadDirError ''/r/locked'') \<and>
   main locked_env = Exit 1"
proof -
  have a: "(if [] = [] then userHomeDir locked_env else Some []) = Some ''/r''"
    by (simp add: locked_env_def env_of_def)
  have b: "absPath locked_env ''/r'' = Some ''/r''"
    by (simp add: locked_env_def env_of_def)
  have t: "fsAt locked_env ''/r'' = Some (Dir True [(''a'', repo), (''locked'', Dir False [])])"
    by (simp add: locked_env_def env_of_def)
  have u: "\<not> traversable (Dir True [(''a'', repo), (''locked'', Dir False [])])"
    by (simp add: repo_def)
  have c: "\<forall>tree. fsAt locked_env ''/r'' = Some tree \<longrightarrow> \<not> IsDir tree \<or> \<not> traversable tree"
    using t u by simp
  have f: "findDirectories locked_env [] = Inl (ReadDirError ''/r/locked'')"
    by (simp add: example_defs)
  from C9_discovery_error_is_fatal[OF a b c, of 4] f b t u show ?thesis by auto
qed

end
